theory Spec2Isabelle
  imports Main
begin

section \<open>Python strings\<close>

text \<open>
  A Python \<^verbatim>\<open>str\<close> is a sequence of Unicode code points, so a string is a list of
  code points (natural numbers), not a list of bytes: U+FEFF is one character.
  Truthiness of a string (\<^verbatim>\<open>if s\<close>, \<^verbatim>\<open>if not s\<close>) is non-emptiness.
\<close>

type_synonym pystr = "nat list"

definition lit :: "string \<Rightarrow> pystr" where
  \<comment> \<open>an ASCII literal of the source, as code points\<close>
  "lit s = map of_char s"

definition BOM :: nat where
  \<comment> \<open>the character U+FEFF, the byte-order mark (zero width no-break space)\<close>
  "BOM = 0xFEFF"

definition NL :: nat where
  \<comment> \<open>\<^verbatim>\<open>'\n'\<close>\<close>
  "NL = 10"

definition py_isspace :: "nat \<Rightarrow> bool" where
  \<comment> \<open>the characters \<^verbatim>\<open>str.strip()\<close> removes: CPython's whitespace table
      (\<^verbatim>\<open>_PyUnicode_IsWhitespace\<close>). U+FEFF is not among them.\<close>
  "py_isspace c \<longleftrightarrow>
     (0x09 \<le> c \<and> c \<le> 0x0D) \<or> (0x1C \<le> c \<and> c \<le> 0x20) \<or> c = 0x85 \<or> c = 0xA0 \<or>
     c = 0x1680 \<or> (0x2000 \<le> c \<and> c \<le> 0x200A) \<or> c = 0x2028 \<or> c = 0x2029 \<or>
     c = 0x202F \<or> c = 0x205F \<or> c = 0x3000"

definition py_strip_chars :: "(nat \<Rightarrow> bool) \<Rightarrow> pystr \<Rightarrow> pystr" where
  \<comment> \<open>\<^verbatim>\<open>str.strip\<close>: advance past the leading characters of the set, then retreat
      past the trailing ones, and return the slice between\<close>
  "py_strip_chars P s = rev (dropWhile P (rev (dropWhile P s)))"

definition py_strip :: "pystr \<Rightarrow> pystr" where
  \<comment> \<open>\<^verbatim>\<open>s.strip()\<close>\<close>
  "py_strip s = py_strip_chars py_isspace s"

definition py_lower :: "pystr \<Rightarrow> pystr" where
  \<comment> \<open>\<^verbatim>\<open>s.lower()\<close> on the ASCII letters. The parser only compares the result with the
      ASCII literals \<^verbatim>\<open>'heading 1'\<close> and \<^verbatim>\<open>'heading 2'\<close>. No non-ASCII character lowers
      to a string made of their characters (U+212A lowers to \<^verbatim>\<open>k\<close>, U+0130 to \<^verbatim>\<open>i\<close>
      followed by U+0307), so both comparisons come out as in Python.\<close>
  "py_lower s = map (\<lambda>c. if 65 \<le> c \<and> c \<le> 90 then c + 32 else c) s"

definition starts_with :: "(nat \<Rightarrow> bool) \<Rightarrow> pystr \<Rightarrow> bool" where
  \<comment> \<open>the string is non-empty and its first character satisfies \<open>P\<close>\<close>
  "starts_with P s = (case s of [] \<Rightarrow> False | c # _ \<Rightarrow> P c)"

definition ends_with :: "(nat \<Rightarrow> bool) \<Rightarrow> pystr \<Rightarrow> bool" where
  "ends_with P s = starts_with P (rev s)"

definition is_bom :: "nat \<Rightarrow> bool" where
  "is_bom c \<longleftrightarrow> c = BOM"


section \<open>The normalizer: \<^verbatim>\<open>clean_line\<close>\<close>

definition clean_line :: "pystr \<Rightarrow> pystr" where
  \<comment> \<open>\<^verbatim>\<open>return line.strip().strip(BOM)\<close>\<close>
  "clean_line line = py_strip_chars is_bom (py_strip line)"

definition normalize_spec :: "pystr \<Rightarrow> pystr" where
  \<comment> \<open>The normalizer as the specification words it: leading and trailing whitespace
      removed and any leading byte-order mark stripped.\<close>
  "normalize_spec line = dropWhile is_bom (py_strip line)"

definition sheltered_whitespace :: "pystr \<Rightarrow> bool" where
  \<comment> \<open>in the line stripped of whitespace, a whitespace character directly follows the
      leading run of U+FEFF or directly precedes the trailing run\<close>
  "sheltered_whitespace line \<longleftrightarrow>
     starts_with py_isspace (dropWhile is_bom (py_strip line)) \<or>
     starts_with py_isspace (dropWhile is_bom (rev (py_strip line)))"


section \<open>The hierarchy parser: \<^verbatim>\<open>parse_document\<close>\<close>

text \<open>
  A paragraph of the document carries its raw text (\<^verbatim>\<open>p.text\<close>) and the name of its
  style (\<^verbatim>\<open>p.style.name\<close>); a document is the list \<^verbatim>\<open>doc.paragraphs\<close>.
\<close>

record docx_paragraph =
  style_name :: pystr
  raw_text :: pystr

text \<open>An emitted dictionary \<^verbatim>\<open>{'text': .., 'section': .., 'question': ..}\<close>.\<close>

record faq =
  faq_text :: pystr
  faq_section :: pystr
  faq_question :: pystr

text \<open>The local variables of \<^verbatim>\<open>parse_document\<close> that the loop updates.\<close>

record parse_state =
  questions :: "faq list"
  section_title :: pystr
  question_title :: pystr
  answer_text_so_far :: pystr

definition question_heading_style :: pystr where
  "question_heading_style = lit ''heading 2''"

definition section_heading_style :: pystr where
  "section_heading_style = lit ''heading 1''"

definition initial_state :: parse_state where
  "initial_state =
     \<lparr>questions = [], section_title = [], question_title = [], answer_text_so_far = []\<rparr>"

definition loop_body :: "parse_state \<Rightarrow> docx_paragraph \<Rightarrow> parse_state" where
  \<comment> \<open>one iteration of \<^verbatim>\<open>for p in doc.paragraphs\<close>\<close>
  "loop_body s p =
     (let style = py_lower (style_name p);
          p_text = clean_line (raw_text p)
      in if p_text = [] then s
         else if style = section_heading_style then s\<lparr>section_title := p_text\<rparr>
         else if style = question_heading_style then
           (let s1 = (if answer_text_so_far s \<noteq> [] \<and> section_title s \<noteq> [] \<and>
                         question_title s \<noteq> []
                      then s\<lparr>questions := questions s @
                             [\<lparr>faq_text = py_strip (answer_text_so_far s),
                               faq_section = section_title s,
                               faq_question = question_title s\<rparr>]\<rparr>
                      else s)
            in s1\<lparr>question_title := p_text, answer_text_so_far := []\<rparr>)
         else s\<lparr>answer_text_so_far := answer_text_so_far s @ NL # p_text\<rparr>)"

fun parse_loop :: "parse_state \<Rightarrow> docx_paragraph list \<Rightarrow> parse_state" where
  \<comment> \<open>the \<^verbatim>\<open>for\<close> loop, from the state \<open>s\<close> over the remaining paragraphs\<close>
  "parse_loop s [] = s"
| "parse_loop s (p # ps) = parse_loop (loop_body s p) ps"

definition parse_document :: "docx_paragraph list \<Rightarrow> faq list" where
  \<comment> \<open>the loop from the initial values, then the statements after the loop\<close>
  "parse_document doc =
     (let s = parse_loop initial_state doc
      in if answer_text_so_far s \<noteq> [] \<and> section_title s \<noteq> [] \<and> question_title s \<noteq> []
         then questions s @
                [\<lparr>faq_text = py_strip (answer_text_so_far s),
                  faq_section = section_title s,
                  faq_question = question_title s\<rparr>]
         else questions s)"

text \<open>
  Notions the properties below are stated with: the condition under which a record is
  emitted, the record a state would emit, and the classification of a paragraph as the
  loop sees it.
\<close>

definition flush_condition :: "parse_state \<Rightarrow> bool" where
  "flush_condition s \<longleftrightarrow>
     answer_text_so_far s \<noteq> [] \<and> section_title s \<noteq> [] \<and> question_title s \<noteq> []"

definition pending_record :: "parse_state \<Rightarrow> faq" where
  "pending_record s =
     \<lparr>faq_text = py_strip (answer_text_so_far s),
      faq_section = section_title s,
      faq_question = question_title s\<rparr>"

definition skipped :: "docx_paragraph \<Rightarrow> bool" where
  \<comment> \<open>\<^verbatim>\<open>if not p_text: continue\<close>\<close>
  "skipped p \<longleftrightarrow> clean_line (raw_text p) = []"

definition is_section_heading :: "docx_paragraph \<Rightarrow> bool" where
  "is_section_heading p \<longleftrightarrow> py_lower (style_name p) = section_heading_style"

definition is_question_heading :: "docx_paragraph \<Rightarrow> bool" where
  "is_question_heading p \<longleftrightarrow> py_lower (style_name p) = question_heading_style"

definition is_body :: "docx_paragraph \<Rightarrow> bool" where
  \<comment> \<open>the \<^verbatim>\<open>else\<close> branch: every other style\<close>
  "is_body p \<longleftrightarrow> \<not> is_section_heading p \<and> \<not> is_question_heading p"

definition emitted :: "parse_state \<Rightarrow> docx_paragraph \<Rightarrow> faq list" where
  \<comment> \<open>the records that one iteration adds to \<^verbatim>\<open>questions\<close>\<close>
  "emitted s p = drop (length (questions s)) (questions (loop_body s p))"

definition para :: "string \<Rightarrow> pystr \<Rightarrow> docx_paragraph" where
  \<comment> \<open>a paragraph from its style name (ASCII) and its text\<close>
  "para st t = \<lparr>style_name = lit st, raw_text = t\<rparr>"


definition same_but_discarded_body :: "parse_state \<Rightarrow> parse_state \<Rightarrow> bool" where
  \<comment> \<open>two states of the loop that agree on everything but an answer text that no
      record will hold, because no question is open\<close>
  "same_but_discarded_body s t \<longleftrightarrow>
     questions s = questions t \<and> section_title s = section_title t \<and>
     question_title s = question_title t \<and>
     (question_title s = [] \<or> answer_text_so_far s = answer_text_so_far t)"

definition accumulated_body :: "docx_paragraph list \<Rightarrow> pystr" where
  \<comment> \<open>what the body paragraphs of a stretch without question heading add to
      \<^verbatim>\<open>answer_text_so_far\<close>: a newline and the cleaned text of each one that is not skipped\<close>
  "accumulated_body ps =
     concat (map (\<lambda>p. NL # clean_line (raw_text p))
               (filter (\<lambda>p. \<not> skipped p \<and> is_body p) ps))"


section \<open>The batch orchestrator\<close>

text \<open>
  The network and the document decoder are outside the program: \<^verbatim>\<open>requests.get\<close> followed
  by \<^verbatim>\<open>raise_for_status\<close> and \<^verbatim>\<open>.content\<close> is a parameter \<open>requests_get\<close> from the URL to
  the bytes or an error, and \<^verbatim>\<open>docx.Document\<close> is a parameter \<open>docx_Document\<close> from the
  bytes to the paragraphs or an error. An exception that nothing catches is the \<open>Inl\<close>
  result of each function it passes through. Logging is left out, and so are the
  failures of the database client.
\<close>

datatype error = Fetch_Error | Decode_Error

type_synonym bytes = "nat list"

definition fetch_document :: "(string \<Rightarrow> error + bytes) \<Rightarrow> string \<Rightarrow> error + bytes" where
  "fetch_document requests_get file_id =
     requests_get (''https://docs.google.com/document/d/'' @ file_id @ ''/export?format=docx'')"

definition read_faq ::
  "(string \<Rightarrow> error + bytes) \<Rightarrow> (bytes \<Rightarrow> error + docx_paragraph list) \<Rightarrow> string \<Rightarrow>
   error + faq list" where
  "read_faq requests_get docx_Document file_id =
     (case fetch_document requests_get file_id of
        Inl e \<Rightarrow> Inl e
      | Inr content \<Rightarrow>
          (case docx_Document content of
             Inl e \<Rightarrow> Inl e
           | Inr doc \<Rightarrow> Inr (parse_document doc)))"

text \<open>The dictionary \<^verbatim>\<open>{'course': course, 'documents': course_documents}\<close>.\<close>

record course_entry =
  course :: string
  documents :: "faq list"

fun process_loop ::
  "(string \<Rightarrow> error + bytes) \<Rightarrow> (bytes \<Rightarrow> error + docx_paragraph list) \<Rightarrow>
   course_entry list \<Rightarrow> (string \<times> string) list \<Rightarrow> error + course_entry list" where
  \<comment> \<open>\<^verbatim>\<open>for course, file_id in faq_documents.items()\<close>, from the list built so far\<close>
  "process_loop requests_get docx_Document acc [] = Inr acc"
| "process_loop requests_get docx_Document acc ((c, file_id) # rest) =
     (case read_faq requests_get docx_Document file_id of
        Inl e \<Rightarrow> Inl e
      | Inr course_documents \<Rightarrow>
          process_loop requests_get docx_Document
            (acc @ [\<lparr>course = c, documents = course_documents\<rparr>]) rest)"

definition process_faq_documents ::
  "(string \<Rightarrow> error + bytes) \<Rightarrow> (bytes \<Rightarrow> error + docx_paragraph list) \<Rightarrow>
   (string \<times> string) list \<Rightarrow> error + course_entry list" where
  \<comment> \<open>the dictionary \<^verbatim>\<open>faq_documents\<close> is its items in insertion order\<close>
  "process_faq_documents requests_get docx_Document faq_documents =
     process_loop requests_get docx_Document [] faq_documents"

text \<open>
  The effect of \<^verbatim>\<open>save_documents_to_mongodb\<close> is the sequence of calls it makes on the
  collection; \<open>apply_calls\<close> is what they do to the stored documents.
\<close>

datatype mongo_call = Delete_many | Insert_one course_entry

definition save_documents_to_mongodb :: "course_entry list \<Rightarrow> mongo_call list" where
  "save_documents_to_mongodb docs = Delete_many # map Insert_one docs"

fun apply_calls :: "mongo_call list \<Rightarrow> course_entry list \<Rightarrow> course_entry list" where
  "apply_calls [] stored = stored"
| "apply_calls (Delete_many # cs) stored = apply_calls cs []"
| "apply_calls (Insert_one d # cs) stored = apply_calls cs (stored @ [d])"

definition main_on ::
  "(string \<Rightarrow> error + bytes) \<Rightarrow> (bytes \<Rightarrow> error + docx_paragraph list) \<Rightarrow>
   (string \<times> string) list \<Rightarrow> (error + unit) \<times> mongo_call list" where
  \<comment> \<open>the body of \<^verbatim>\<open>main\<close> for a given \<^verbatim>\<open>faq_documents\<close>: the outcome and the calls made on
      the collection\<close>
  "main_on requests_get docx_Document faq_documents =
     (case process_faq_documents requests_get docx_Document faq_documents of
        Inl e \<Rightarrow> (Inl e, [])
      | Inr docs \<Rightarrow> (Inr (), save_documents_to_mongodb docs))"

definition faq_documents_of_main :: "(string \<times> string) list" where
  "faq_documents_of_main =
     [(''data-engineering-zoomcamp'', ''19bnYs80DwuUimHM65UV3sylsCn2j1vziPOwzBwQrebw''),
      (''machine-learning-zoomcamp'', ''1LpPanc33QJJ6BSsyxVg-pWNMplal84TdZtq10naIhD8''),
      (''mlops-zoomcamp'', ''12TlBfhIiKtyBv8RnsoJR6F72bkPDGEvPOItJIxaEzE0'')]"

definition main ::
  "(string \<Rightarrow> error + bytes) \<Rightarrow> (bytes \<Rightarrow> error + docx_paragraph list) \<Rightarrow>
   (error + unit) \<times> mongo_call list" where
  "main requests_get docx_Document = main_on requests_get docx_Document faq_documents_of_main"


section \<open>Properties of the normalizer\<close>

lemma py_strip_chars_Nil: "py_strip_chars P [] = []"
  by (simp add: py_strip_chars_def)

lemma rev_dropWhile_takeWhile:
  "rev (dropWhile P (rev xs)) @ rev (takeWhile P (rev xs)) = xs"
proof -
  have "rev (takeWhile P (rev xs) @ dropWhile P (rev xs)) = xs"
    by (simp only: takeWhile_dropWhile_id rev_rev_ident)
  then show ?thesis
    by (simp only: rev_append)
qed

lemma py_strip_chars_decomp:
  "takeWhile P s @ py_strip_chars P s @ rev (takeWhile P (rev (dropWhile P s))) = s"
proof -
  have "py_strip_chars P s @ rev (takeWhile P (rev (dropWhile P s))) = dropWhile P s"
    unfolding py_strip_chars_def by (rule rev_dropWhile_takeWhile)
  then show ?thesis
    by (simp only: takeWhile_dropWhile_id)
qed

lemma py_strip_chars_removed:
  "\<exists>pre suf. s = pre @ py_strip_chars P s @ suf \<and> (\<forall>c\<in>set (pre @ suf). P c)"
proof -
  let ?pre = "takeWhile P s"
  let ?suf = "rev (takeWhile P (rev (dropWhile P s)))"
  have "s = ?pre @ py_strip_chars P s @ ?suf"
    by (simp only: py_strip_chars_decomp)
  moreover have "\<forall>c\<in>set (?pre @ ?suf). P c"
    by (auto dest: set_takeWhileD)
  ultimately show ?thesis by blast
qed

lemma not_starts_with_dropWhile: "\<not> starts_with P (dropWhile P xs)"
  by (induction xs) (auto simp: starts_with_def)

lemma not_ends_with_strip: "\<not> ends_with P (py_strip_chars P s)"
  by (simp add: ends_with_def py_strip_chars_def not_starts_with_dropWhile)

lemma not_starts_with_strip: "\<not> starts_with P (py_strip_chars P s)"
proof (cases "dropWhile P s")
  case Nil
  show ?thesis
    unfolding py_strip_chars_def Nil by (simp add: starts_with_def)
next
  case (Cons x d)
  then have nP: "\<not> P x" by (simp add: dropWhile_eq_Cons_conv)
  then have "dropWhile P (rev d @ [x]) = dropWhile P (rev d) @ [x]"
    by (simp add: dropWhile_append3)
  with Cons nP show ?thesis
    by (simp add: py_strip_chars_def starts_with_def)
qed

lemma py_strip_chars_id:
  assumes "\<forall>c\<in>set s. \<not> P c"
  shows "py_strip_chars P s = s"
proof -
  have "dropWhile P s = s"
    by (rule dropWhile_id) (use assms in auto)
  moreover have "dropWhile P (rev s) = rev s"
    by (rule dropWhile_id) (use assms in auto)
  ultimately show ?thesis
    by (simp add: py_strip_chars_def)
qed

lemma set_py_strip_chars: "set (py_strip_chars P s) \<subseteq> set s"
  by (auto simp: py_strip_chars_def dest!: set_dropWhileD)

lemma py_strip_chars_fixed:
  assumes "\<not> starts_with P s" and "\<not> ends_with P s"
  shows "py_strip_chars P s = s"
proof -
  have a: "dropWhile P s = s"
    using assms(1) by (cases s) (auto simp: starts_with_def)
  have b: "dropWhile P (rev s) = rev s"
    using assms(2) by (cases "rev s") (auto simp: ends_with_def starts_with_def)
  show ?thesis
    by (simp add: py_strip_chars_def a b)
qed

lemma starts_with_strip:
  "starts_with Q (py_strip_chars P s) = starts_with Q (dropWhile P s)"
proof (cases "dropWhile P s")
  case Nil
  show ?thesis
    unfolding py_strip_chars_def Nil by (simp add: starts_with_def)
next
  case (Cons x d)
  then have nP: "\<not> P x" by (simp add: dropWhile_eq_Cons_conv)
  then have "dropWhile P (rev d @ [x]) = dropWhile P (rev d) @ [x]"
    by (simp add: dropWhile_append3)
  then show ?thesis
    unfolding py_strip_chars_def Cons by (simp add: starts_with_def)
qed

lemma ends_with_strip:
  "ends_with Q (py_strip_chars P s) = starts_with Q (dropWhile P (rev s))"
proof (cases "dropWhile P s")
  case Nil
  then have "\<forall>x\<in>set (rev s). P x"
    by simp
  then have r: "dropWhile P (rev s) = []"
    by (simp only: dropWhile_eq_Nil_conv)
  show ?thesis
    unfolding ends_with_def py_strip_chars_def Nil r by (simp add: starts_with_def)
next
  case (Cons x d)
  then have nP: "\<not> P x" by (simp add: dropWhile_eq_Cons_conv)
  have s: "rev s = rev (dropWhile P s) @ rev (takeWhile P s)"
    by (simp only: rev_append [symmetric] takeWhile_dropWhile_id)
  have "dropWhile P (rev s) = dropWhile P (rev (dropWhile P s)) @ rev (takeWhile P s)"
  proof -
    have "x \<in> set (rev (dropWhile P s))"
      by (simp add: Cons)
    then have "dropWhile P (rev (dropWhile P s) @ rev (takeWhile P s)) =
        dropWhile P (rev (dropWhile P s)) @ rev (takeWhile P s)"
      using nP by (rule dropWhile_append1)
    then show ?thesis
      using s by simp
  qed
  moreover have "dropWhile P (rev (dropWhile P s)) \<noteq> []"
    using nP by (auto simp: Cons)
  ultimately have "starts_with Q (dropWhile P (rev s)) =
      starts_with Q (dropWhile P (rev (dropWhile P s)))"
    by (cases "dropWhile P (rev (dropWhile P s))") (simp_all add: starts_with_def)
  then show ?thesis
    by (simp add: ends_with_def py_strip_chars_def)
qed

lemma clean_line_ends_whitespace:
  "starts_with py_isspace (clean_line line) \<or> ends_with py_isspace (clean_line line) \<longleftrightarrow>
   sheltered_whitespace line"
  by (simp add: clean_line_def sheltered_whitespace_def starts_with_strip ends_with_strip)

subsection \<open>C3: what the normalizer returns\<close>

text \<open>
  C3, as amended. For every input string \<^verbatim>\<open>clean_line\<close> is defined (it is a total
  function without side effects) and the empty string maps to the empty string. The
  result is the line with a prefix and a suffix removed that consist only of whitespace
  and U+FEFF characters, and it neither begins nor ends with U+FEFF: trailing byte-order
  marks are stripped as well as leading ones. Unless, in the line stripped of whitespace,
  a whitespace character directly follows the leading run of U+FEFF or directly precedes
  the trailing run, the result is exactly the line with its leading and trailing
  whitespace removed and then its leading and trailing U+FEFF removed, and it begins and
  ends with neither whitespace nor U+FEFF. In particular, for a line without U+FEFF the
  result is the line with its leading and trailing whitespace removed.
\<close>

theorem clean_line_contract:
  "clean_line [] = [] \<and>
   (\<exists>pre suf. line = pre @ clean_line line @ suf \<and>
      (\<forall>c\<in>set (pre @ suf). py_isspace c \<or> c = BOM)) \<and>
   \<not> starts_with is_bom (clean_line line) \<and>
   \<not> ends_with is_bom (clean_line line) \<and>
   (\<not> sheltered_whitespace line \<longrightarrow>
      (\<exists>ws1 b1 b2 ws2. line = ws1 @ b1 @ clean_line line @ b2 @ ws2 \<and>
         (\<forall>c\<in>set (ws1 @ ws2). py_isspace c) \<and> (\<forall>c\<in>set (b1 @ b2). c = BOM)) \<and>
      \<not> starts_with py_isspace (clean_line line) \<and>
      \<not> ends_with py_isspace (clean_line line)) \<and>
   (BOM \<notin> set line \<longrightarrow>
      \<not> sheltered_whitespace line \<and>
      clean_line line = py_strip line \<and>
      (\<exists>ws1 ws2. line = ws1 @ clean_line line @ ws2 \<and> (\<forall>c\<in>set (ws1 @ ws2). py_isspace c)))"
proof -
  have nil: "clean_line [] = []"
    by (simp add: clean_line_def py_strip_def py_strip_chars_Nil)
  obtain w1 w2 where w: "line = w1 @ py_strip line @ w2" "\<forall>c\<in>set (w1 @ w2). py_isspace c"
    unfolding py_strip_def using py_strip_chars_removed [of line py_isspace] by blast
  obtain b1 b2 where b: "py_strip line = b1 @ clean_line line @ b2" "\<forall>c\<in>set (b1 @ b2). is_bom c"
    unfolding clean_line_def using py_strip_chars_removed [of "py_strip line" is_bom] by blast
  have parts: "line = w1 @ b1 @ clean_line line @ b2 @ w2"
    using w(1) b(1) by simp
  have marks: "\<forall>c\<in>set (b1 @ b2). c = BOM"
    using b(2) by (simp add: is_bom_def)
  have "line = (w1 @ b1) @ clean_line line @ (b2 @ w2)"
    using parts by simp
  moreover have "\<forall>c\<in>set ((w1 @ b1) @ (b2 @ w2)). py_isspace c \<or> c = BOM"
    using w(2) marks by auto
  ultimately have removed: "\<exists>pre suf. line = pre @ clean_line line @ suf \<and>
      (\<forall>c\<in>set (pre @ suf). py_isspace c \<or> c = BOM)"
    by blast
  have ends: "\<not> starts_with is_bom (clean_line line)" "\<not> ends_with is_bom (clean_line line)"
    by (simp_all add: clean_line_def not_starts_with_strip not_ends_with_strip)
  have exact: "(\<exists>ws1 b1 b2 ws2. line = ws1 @ b1 @ clean_line line @ b2 @ ws2 \<and>
         (\<forall>c\<in>set (ws1 @ ws2). py_isspace c) \<and> (\<forall>c\<in>set (b1 @ b2). c = BOM)) \<and>
      \<not> starts_with py_isspace (clean_line line) \<and>
      \<not> ends_with py_isspace (clean_line line)" if "\<not> sheltered_whitespace line"
  proof -
    from that have "\<not> starts_with py_isspace (clean_line line)"
      "\<not> ends_with py_isspace (clean_line line)"
      using clean_line_ends_whitespace [of line] by blast+
    with parts w(2) marks show ?thesis
      by blast
  qed
  have nobom: "\<not> sheltered_whitespace line \<and> clean_line line = py_strip line \<and>
      (\<exists>ws1 ws2. line = ws1 @ clean_line line @ ws2 \<and> (\<forall>c\<in>set (ws1 @ ws2). py_isspace c))"
    if "BOM \<notin> set line"
  proof -
    have "set (py_strip line) \<subseteq> set line"
      unfolding py_strip_def by (rule set_py_strip_chars)
    with that have "\<forall>c\<in>set (py_strip line). \<not> is_bom c"
      by (auto simp: is_bom_def)
    then have eq: "clean_line line = py_strip line"
      unfolding clean_line_def by (rule py_strip_chars_id)
    have "\<not> starts_with py_isspace (py_strip line)" "\<not> ends_with py_isspace (py_strip line)"
      by (simp_all add: py_strip_def not_starts_with_strip not_ends_with_strip)
    with eq have "\<not> sheltered_whitespace line"
      using clean_line_ends_whitespace [of line] by simp
    with eq w show ?thesis
      by auto
  qed
  from nil removed ends exact nobom show ?thesis
    by blast
qed

theorem clean_line_contract_witness:
  "\<not> sheltered_whitespace [32, 0xFEFF, 84, 0xFEFF, 32] \<and>
   \<not> starts_with py_isspace (clean_line [32, 0xFEFF, 84, 0xFEFF, 32]) \<and>
   \<not> ends_with py_isspace (clean_line [32, 0xFEFF, 84, 0xFEFF, 32]) \<and>
   \<not> starts_with is_bom (clean_line [32, 0xFEFF, 84, 0xFEFF, 32]) \<and>
   \<not> ends_with is_bom (clean_line [32, 0xFEFF, 84, 0xFEFF, 32]) \<and>
   BOM \<notin> set [32, 97, 98, 10] \<and>
   clean_line [32, 97, 98, 10] = py_strip [32, 97, 98, 10]"
proof -
  have h1: "\<not> sheltered_whitespace [32, 0xFEFF, 84, 0xFEFF, 32]"
    by (simp add: sheltered_whitespace_def py_strip_def py_strip_chars_def py_isspace_def
        is_bom_def BOM_def starts_with_def)
  have h2: "BOM \<notin> set [32, 97, 98, 10]"
    by (simp add: BOM_def)
  show ?thesis
    using h1 h2 clean_line_contract [of "[32, 0xFEFF, 84, 0xFEFF, 32]"]
      clean_line_contract [of "[32, 97, 98, 10]"]
    by blast
qed

text \<open>
  C3 as the specification states it fails at the line U+FEFF, space, \<^verbatim>\<open>a\<close>, U+FEFF:
  the code returns space, \<^verbatim>\<open>a\<close>. The trailing byte-order mark is stripped although
  only a leading one is announced, so the result differs from the line with whitespace
  trimmed and the leading mark stripped; and the result begins with whitespace.
\<close>

theorem clean_line_spec_counterexample:
  "clean_line [0xFEFF, 32, 97, 0xFEFF] = [32, 97] \<and>
   normalize_spec [0xFEFF, 32, 97, 0xFEFF] = [32, 97, 0xFEFF] \<and>
   starts_with py_isspace (clean_line [0xFEFF, 32, 97, 0xFEFF])"
  by (simp add: clean_line_def normalize_spec_def py_strip_def py_strip_chars_def
      py_isspace_def is_bom_def BOM_def starts_with_def)

subsection \<open>C4: idempotence of the normalizer\<close>

text \<open>
  C4. \<^verbatim>\<open>clean_line\<close> is not idempotent: whitespace is stripped before the byte-order
  marks, so whitespace that follows a leading mark (or precedes a trailing one) survives
  the first call and is removed by the second. At the line U+FEFF, space, \<^verbatim>\<open>a\<close> the
  first call returns space, \<^verbatim>\<open>a\<close> and the second returns \<^verbatim>\<open>a\<close>.
\<close>

theorem clean_line_not_idempotent:
  "clean_line [0xFEFF, 32, 97] = [32, 97] \<and>
   clean_line (clean_line [0xFEFF, 32, 97]) = [97] \<and>
   clean_line (clean_line [0xFEFF, 32, 97]) \<noteq> clean_line [0xFEFF, 32, 97]"
  by (simp add: clean_line_def py_strip_def py_strip_chars_def py_isspace_def is_bom_def BOM_def)

section \<open>Properties of the parser\<close>

subsection \<open>One iteration of the loop, by kind of paragraph\<close>

lemma heading_styles_distinct: "section_heading_style \<noteq> question_heading_style"
  by (simp add: section_heading_style_def question_heading_style_def lit_def)

lemma question_not_section: "is_question_heading p \<Longrightarrow> \<not> is_section_heading p"
  using heading_styles_distinct by (simp add: is_question_heading_def is_section_heading_def)

lemma loop_body_skipped: "skipped p \<Longrightarrow> loop_body s p = s"
  by (simp add: loop_body_def skipped_def)

lemma loop_body_section:
  "\<not> skipped p \<Longrightarrow> is_section_heading p \<Longrightarrow>
   loop_body s p = s\<lparr>section_title := clean_line (raw_text p)\<rparr>"
  by (simp add: loop_body_def skipped_def is_section_heading_def)

lemma loop_body_question:
  "\<not> skipped p \<Longrightarrow> is_question_heading p \<Longrightarrow>
   loop_body s p =
     (if flush_condition s then s\<lparr>questions := questions s @ [pending_record s]\<rparr> else s)
       \<lparr>question_title := clean_line (raw_text p), answer_text_so_far := []\<rparr>"
  using heading_styles_distinct
  by (simp add: loop_body_def skipped_def is_question_heading_def flush_condition_def
      pending_record_def)

lemma loop_body_body:
  "\<not> skipped p \<Longrightarrow> is_body p \<Longrightarrow>
   loop_body s p = s\<lparr>answer_text_so_far := answer_text_so_far s @ NL # clean_line (raw_text p)\<rparr>"
  by (simp add: loop_body_def skipped_def is_body_def is_question_heading_def
      is_section_heading_def)

lemma paragraph_cases:
  obtains (skip_par) "skipped p"
  | (sec_heading) "\<not> skipped p" "is_section_heading p"
  | (quest_heading) "\<not> skipped p" "is_question_heading p"
  | (body_par) "\<not> skipped p" "is_body p"
  unfolding is_body_def by blast

lemma parse_loop_append: "parse_loop s (xs @ ys) = parse_loop (parse_loop s xs) ys"
  by (induction xs arbitrary: s) simp_all

lemma parse_loop_snoc: "parse_loop s (xs @ [x]) = loop_body (parse_loop s xs) x"
  by (simp add: parse_loop_append)

lemma emitted_eq:
  "emitted s p =
     (if \<not> skipped p \<and> is_question_heading p \<and> flush_condition s
      then [pending_record s] else [])"
  by (cases p rule: paragraph_cases)
     (auto simp: emitted_def loop_body_skipped loop_body_section loop_body_question
        loop_body_body question_not_section is_body_def)

lemma questions_loop_body: "questions (loop_body s p) = questions s @ emitted s p"
  by (cases p rule: paragraph_cases)
     (auto simp: emitted_eq loop_body_skipped loop_body_section loop_body_question
        loop_body_body question_not_section is_body_def)

lemma parse_document_eq:
  "parse_document doc =
     questions (parse_loop initial_state doc) @
       (if flush_condition (parse_loop initial_state doc)
        then [pending_record (parse_loop initial_state doc)] else [])"
  by (simp add: parse_document_def Let_def flush_condition_def pending_record_def)

lemma raw_text_para: "raw_text (para st t) = t"
  by (simp add: para_def)

lemma para_Heading_1: "is_section_heading (para ''Heading 1'' t)"
  by (simp add: is_section_heading_def para_def py_lower_def lit_def section_heading_style_def)

lemma para_Heading_2: "is_question_heading (para ''Heading 2'' t)"
  by (simp add: is_question_heading_def para_def py_lower_def lit_def question_heading_style_def)

lemma para_Normal: "is_body (para ''Normal'' t)"
  by (simp add: is_body_def is_section_heading_def is_question_heading_def para_def
      py_lower_def lit_def section_heading_style_def question_heading_style_def)

lemmas para_simps = raw_text_para para_Heading_1 para_Heading_2 para_Normal

lemmas strip_eval = clean_line_def py_strip_def py_strip_chars_def py_isspace_def
  is_bom_def BOM_def NL_def

lemma questions_parse_loop:
  "questions (parse_loop s doc) =
     questions s @
       concat (map (\<lambda>i. emitted (parse_loop s (take i doc)) (doc ! i)) [0..<length doc])"
proof (induction doc rule: rev_induct)
  case Nil
  then show ?case by simp
next
  case (snoc x xs)
  let ?F = "\<lambda>i. emitted (parse_loop s (take i (xs @ [x]))) ((xs @ [x]) ! i)"
  let ?G = "\<lambda>i. emitted (parse_loop s (take i xs)) (xs ! i)"
  have same: "map ?F [0..<length xs] = map ?G [0..<length xs]"
    by (rule map_cong) (simp_all add: nth_append)
  have final: "?F (length xs) = emitted (parse_loop s xs) x"
    by simp
  have idx: "[0..<length (xs @ [x])] = [0..<length xs] @ [length xs]"
    by simp
  have "concat (map ?F [0..<length (xs @ [x])]) =
      concat (map ?F [0..<length xs]) @ ?F (length xs)"
    by (simp only: idx map_append list.map concat_append concat.simps append_Nil2)
  then have split: "concat (map ?F [0..<length (xs @ [x])]) =
      concat (map ?G [0..<length xs]) @ emitted (parse_loop s xs) x"
    by (simp only: same final)
  have "questions (parse_loop s (xs @ [x])) =
      questions (parse_loop s xs) @ emitted (parse_loop s xs) x"
    by (simp only: parse_loop_snoc questions_loop_body)
  also have "\<dots> = (questions s @ concat (map ?G [0..<length xs])) @ emitted (parse_loop s xs) x"
    by (simp only: snoc.IH)
  finally show ?case
    by (simp only: split append_assoc)
qed

lemma loop_body_question_twice:
  assumes "is_question_heading q1" and "is_question_heading q2" and "\<not> skipped q2"
  shows "loop_body (loop_body s q1) q2 = loop_body s q2"
proof (cases "skipped q1")
  case True
  then show ?thesis by (simp add: loop_body_skipped)
next
  case False
  then have "\<not> flush_condition (loop_body s q1)"
    using assms(1) by (simp add: loop_body_question flush_condition_def)
  then show ?thesis
    using False assms by (simp add: loop_body_question)
qed

lemma parse_document_append:
  "parse_document (pre @ post) =
     (let s = parse_loop (parse_loop initial_state pre) post
      in questions s @ (if flush_condition s then [pending_record s] else []))"
  by (simp add: parse_document_eq parse_loop_append Let_def)

lemmas loop_eval = loop_body_skipped loop_body_section loop_body_question loop_body_body
  skipped_def para_simps flush_condition_def pending_record_def initial_state_def strip_eval

subsection \<open>C1: fields of an emitted record\<close>

text \<open>The section and the question of every returned record are non-empty.\<close>

lemma emitted_section_question:
  "r \<in> set (emitted s p) \<Longrightarrow> faq_section r \<noteq> [] \<and> faq_question r \<noteq> []"
  by (auto simp: emitted_eq flush_condition_def pending_record_def split: if_splits)

lemma parse_document_section_question:
  assumes "r \<in> set (parse_document doc)"
  shows "faq_section r \<noteq> [] \<and> faq_question r \<noteq> []"
proof -
  let ?s = "parse_loop initial_state doc"
  from assms consider
    (loop) "r \<in> set (questions ?s)"
    | (final) "flush_condition ?s" "r = pending_record ?s"
    by (auto simp: parse_document_eq split: if_splits)
  then show ?thesis
  proof cases
    case loop
    then obtain i where "r \<in> set (emitted (parse_loop initial_state (take i doc)) (doc ! i))"
      using questions_parse_loop [of initial_state doc] by (auto simp: initial_state_def)
    then show ?thesis
      by (rule emitted_section_question)
  next
    case final
    then show ?thesis
      by (simp add: flush_condition_def pending_record_def)
  qed
qed

text \<open>
  C1. The guard before each \<^verbatim>\<open>questions.append\<close> tests the accumulated answer text,
  while the record stores that text stripped. A body paragraph whose text is U+FEFF,
  space, U+FEFF is cleaned to a single space, which is not empty, so it is accumulated;
  the record emitted at the end of the document has an empty \<^verbatim>\<open>text\<close> field.
\<close>

theorem empty_text_record_emitted:
  "parse_document
     [para ''Heading 1'' [83], para ''Heading 2'' [81], para ''Normal'' [0xFEFF, 32, 0xFEFF]] =
   [\<lparr>faq_text = [], faq_section = [83], faq_question = [81]\<rparr>]"
proof -
  have c: "clean_line [83] = [83]" "clean_line [81] = [81]"
    "clean_line [0xFEFF, 32, 0xFEFF] = [32]" "py_strip [10, 32] = []"
    by (simp_all add: strip_eval)
  have s1: "loop_body initial_state (para ''Heading 1'' [83]) =
      \<lparr>questions = [], section_title = [83], question_title = [], answer_text_so_far = []\<rparr>"
    by (simp add: loop_body_section skipped_def para_simps c initial_state_def)
  have s2: "loop_body \<lparr>questions = [], section_title = [83], question_title = [],
        answer_text_so_far = []\<rparr> (para ''Heading 2'' [81]) =
      \<lparr>questions = [], section_title = [83], question_title = [81], answer_text_so_far = []\<rparr>"
    by (simp add: loop_body_question skipped_def para_simps c flush_condition_def)
  have s3: "loop_body \<lparr>questions = [], section_title = [83], question_title = [81],
        answer_text_so_far = []\<rparr> (para ''Normal'' [0xFEFF, 32, 0xFEFF]) =
      \<lparr>questions = [], section_title = [83], question_title = [81],
        answer_text_so_far = [10, 32]\<rparr>"
    by (simp add: loop_body_body skipped_def para_simps c NL_def)
  show ?thesis
    by (simp add: parse_document_def s1 s2 s3 c)
qed

subsection \<open>C2: the flush at a question heading and at the end of the document\<close>

text \<open>
  C2. Let the loop have run over any paragraphs \<open>pre\<close> and meet a paragraph whose style is
  the question heading style and whose cleaned text is not empty. Then one record (the
  stripped answer text, the current section title, the current question title) is
  appended exactly when the answer text, the section title and the question title are
  all non-empty; in either case the question title becomes the cleaned text and the answer
  text is reset to empty, so a document that ends there returns the records appended so
  far. After the last paragraph of any document the same condition decides whether one
  last record is appended.
\<close>

theorem question_heading_flush:
  assumes "is_question_heading p" and "clean_line (raw_text p) \<noteq> []"
  shows "questions (parse_loop initial_state (pre @ [p])) =
           (if answer_text_so_far (parse_loop initial_state pre) \<noteq> [] \<and>
               section_title (parse_loop initial_state pre) \<noteq> [] \<and>
               question_title (parse_loop initial_state pre) \<noteq> []
            then questions (parse_loop initial_state pre) @
                   [\<lparr>faq_text = py_strip (answer_text_so_far (parse_loop initial_state pre)),
                     faq_section = section_title (parse_loop initial_state pre),
                     faq_question = question_title (parse_loop initial_state pre)\<rparr>]
            else questions (parse_loop initial_state pre)) \<and>
         question_title (parse_loop initial_state (pre @ [p])) = clean_line (raw_text p) \<and>
         answer_text_so_far (parse_loop initial_state (pre @ [p])) = [] \<and>
         section_title (parse_loop initial_state (pre @ [p])) =
           section_title (parse_loop initial_state pre) \<and>
         parse_document (pre @ [p]) = questions (parse_loop initial_state (pre @ [p])) \<and>
         parse_document doc =
           (if answer_text_so_far (parse_loop initial_state doc) \<noteq> [] \<and>
               section_title (parse_loop initial_state doc) \<noteq> [] \<and>
               question_title (parse_loop initial_state doc) \<noteq> []
            then questions (parse_loop initial_state doc) @
                   [\<lparr>faq_text = py_strip (answer_text_so_far (parse_loop initial_state doc)),
                     faq_section = section_title (parse_loop initial_state doc),
                     faq_question = question_title (parse_loop initial_state doc)\<rparr>]
            else questions (parse_loop initial_state doc))"
proof -
  let ?s = "parse_loop initial_state pre"
  from assms have "\<not> skipped p"
    by (simp add: skipped_def)
  then have step: "loop_body ?s p =
     (if flush_condition ?s then ?s\<lparr>questions := questions ?s @ [pending_record ?s]\<rparr> else ?s)
       \<lparr>question_title := clean_line (raw_text p), answer_text_so_far := []\<rparr>"
    using assms(1) by (rule loop_body_question)
  have run: "parse_loop initial_state (pre @ [p]) = loop_body ?s p"
    by (rule parse_loop_snoc)
  have closed: "parse_document (pre @ [p]) = questions (parse_loop initial_state (pre @ [p]))"
    unfolding parse_document_eq run step by (simp add: flush_condition_def)
  have final: "parse_document doc =
           (if answer_text_so_far (parse_loop initial_state doc) \<noteq> [] \<and>
               section_title (parse_loop initial_state doc) \<noteq> [] \<and>
               question_title (parse_loop initial_state doc) \<noteq> []
            then questions (parse_loop initial_state doc) @
                   [\<lparr>faq_text = py_strip (answer_text_so_far (parse_loop initial_state doc)),
                     faq_section = section_title (parse_loop initial_state doc),
                     faq_question = question_title (parse_loop initial_state doc)\<rparr>]
            else questions (parse_loop initial_state doc))"
    by (simp add: parse_document_def Let_def)
  have loop: "questions (parse_loop initial_state (pre @ [p])) =
           (if answer_text_so_far ?s \<noteq> [] \<and> section_title ?s \<noteq> [] \<and> question_title ?s \<noteq> []
            then questions ?s @
                   [\<lparr>faq_text = py_strip (answer_text_so_far ?s),
                     faq_section = section_title ?s,
                     faq_question = question_title ?s\<rparr>]
            else questions ?s) \<and>
         question_title (parse_loop initial_state (pre @ [p])) = clean_line (raw_text p) \<and>
         answer_text_so_far (parse_loop initial_state (pre @ [p])) = [] \<and>
         section_title (parse_loop initial_state (pre @ [p])) = section_title ?s"
    unfolding run step by (simp add: flush_condition_def pending_record_def)
  from loop closed final show ?thesis
    by (simp only: simp_thms)
qed

theorem question_heading_flush_witness:
  "is_question_heading (para ''Heading 2'' [82]) \<and>
   clean_line (raw_text (para ''Heading 2'' [82])) \<noteq> [] \<and>
   questions (parse_loop initial_state
      ([para ''Heading 1'' [83], para ''Heading 2'' [81], para ''Normal'' [98]] @
       [para ''Heading 2'' [82]])) =
     [\<lparr>faq_text = [98], faq_section = [83], faq_question = [81]\<rparr>] \<and>
   question_title (parse_loop initial_state
      ([para ''Heading 1'' [83], para ''Heading 2'' [81], para ''Normal'' [98]] @
       [para ''Heading 2'' [82]])) = [82] \<and>
   parse_document
      ([para ''Heading 1'' [83], para ''Heading 2'' [81], para ''Normal'' [98]] @
       [para ''Heading 2'' [82]]) =
     [\<lparr>faq_text = [98], faq_section = [83], faq_question = [81]\<rparr>]"
proof -
  let ?pre = "[para ''Heading 1'' [83], para ''Heading 2'' [81], para ''Normal'' [98]]"
  have h1: "is_question_heading (para ''Heading 2'' [82])"
    by (rule para_Heading_2)
  have c: "clean_line [82] = [82]" "py_strip [10, 98] = [98]"
    by (simp_all add: strip_eval)
  have h2: "clean_line (raw_text (para ''Heading 2'' [82])) \<noteq> []"
    by (simp add: raw_text_para c)
  have before: "parse_loop initial_state ?pre =
      \<lparr>questions = [], section_title = [83], question_title = [81],
        answer_text_so_far = [10, 98]\<rparr>"
    by (simp add: loop_eval)
  have "questions (parse_loop initial_state (?pre @ [para ''Heading 2'' [82]])) =
      [\<lparr>faq_text = [98], faq_section = [83], faq_question = [81]\<rparr>] \<and>
    question_title (parse_loop initial_state (?pre @ [para ''Heading 2'' [82]])) = [82] \<and>
    parse_document (?pre @ [para ''Heading 2'' [82]]) =
      [\<lparr>faq_text = [98], faq_section = [83], faq_question = [81]\<rparr>]"
    using question_heading_flush [OF h1 h2, of ?pre "[]"]
    by (simp only: before raw_text_para) (simp add: c)
  with h1 h2 show ?thesis
    by (simp only: simp_thms)
qed

subsection \<open>C5: a section heading only sets the section title\<close>

text \<open>
  C5. At a paragraph whose style is the section heading style and whose cleaned text is
  not empty, the iteration only sets the section title to the cleaned text: no record is
  emitted, and the question title and the accumulated answer text are unchanged.
\<close>

theorem section_heading_frame:
  assumes "is_section_heading p" and "clean_line (raw_text p) \<noteq> []"
  shows "loop_body s p = s\<lparr>section_title := clean_line (raw_text p)\<rparr> \<and>
         emitted s p = [] \<and>
         questions (loop_body s p) = questions s \<and>
         question_title (loop_body s p) = question_title s \<and>
         answer_text_so_far (loop_body s p) = answer_text_so_far s"
proof -
  from assms have ns: "\<not> skipped p"
    by (simp add: skipped_def)
  then have "loop_body s p = s\<lparr>section_title := clean_line (raw_text p)\<rparr>"
    using assms(1) by (rule loop_body_section)
  moreover have "emitted s p = []"
    using assms(1) question_not_section [of p] by (auto simp: emitted_eq)
  ultimately show ?thesis
    by simp
qed

theorem section_heading_frame_witness:
  "is_section_heading (para ''Heading 1'' [66]) \<and>
   clean_line (raw_text (para ''Heading 1'' [66])) \<noteq> [] \<and>
   loop_body
      \<lparr>questions = [], section_title = [65], question_title = [81],
        answer_text_so_far = [10, 98]\<rparr> (para ''Heading 1'' [66]) =
      \<lparr>questions = [], section_title = [66], question_title = [81],
        answer_text_so_far = [10, 98]\<rparr>"
proof -
  have h1: "is_section_heading (para ''Heading 1'' [66])"
    by (rule para_Heading_1)
  have c: "clean_line [66] = [66]"
    by (simp add: strip_eval)
  have h2: "clean_line (raw_text (para ''Heading 1'' [66])) \<noteq> []"
    by (simp add: raw_text_para c)
  show ?thesis
    using h1 h2 section_heading_frame [OF h1 h2, of
        "\<lparr>questions = [], section_title = [65], question_title = [81],
          answer_text_so_far = [10, 98]\<rparr>"]
    by (simp add: raw_text_para c)
qed

subsection \<open>C6: a question heading directly followed by a question heading\<close>

text \<open>
  C6, as amended. When a paragraph in the question heading style is immediately followed
  by another paragraph in the question heading style whose cleaned text is not empty (so
  that the loop does not skip it), no record is produced for the first heading: the
  document parses to exactly the records of the document without the first heading. If
  the first heading is not skipped either, the accumulated answer text is empty when the
  second one is reached, so the flush there emits nothing.
\<close>

theorem bodyless_question_dropped:
  assumes "is_question_heading q1" and "is_question_heading q2" and "\<not> skipped q2"
  shows "parse_document (pre @ q1 # q2 # post) = parse_document (pre @ q2 # post) \<and>
         (\<not> skipped q1 \<longrightarrow>
            answer_text_so_far (parse_loop initial_state (pre @ [q1])) = [] \<and>
            emitted (parse_loop initial_state (pre @ [q1])) q2 = [])"
proof -
  have "parse_document (pre @ q1 # q2 # post) = parse_document (pre @ q2 # post)"
    using assms by (simp add: parse_document_append loop_body_question_twice)
  moreover have "answer_text_so_far (parse_loop initial_state (pre @ [q1])) = [] \<and>
      emitted (parse_loop initial_state (pre @ [q1])) q2 = []" if "\<not> skipped q1"
    using that assms(1)
    by (simp add: parse_loop_snoc loop_body_question emitted_eq flush_condition_def)
  ultimately show ?thesis
    by blast
qed

theorem bodyless_question_dropped_witness:
  "is_question_heading (para ''Heading 2'' [81]) \<and>
   is_question_heading (para ''Heading 2'' [82]) \<and>
   \<not> skipped (para ''Heading 2'' [82]) \<and>
   parse_document ([para ''Heading 1'' [83], para ''Heading 2'' [80], para ''Normal'' [98]] @
      para ''Heading 2'' [81] # para ''Heading 2'' [82] # [para ''Normal'' [99]]) =
     [\<lparr>faq_text = [98], faq_section = [83], faq_question = [80]\<rparr>,
      \<lparr>faq_text = [99], faq_section = [83], faq_question = [82]\<rparr>]"
proof -
  have h1: "is_question_heading (para ''Heading 2'' [81])"
    and h2: "is_question_heading (para ''Heading 2'' [82])"
    by (rule para_Heading_2)+
  have h3: "\<not> skipped (para ''Heading 2'' [82])"
    by (simp add: skipped_def raw_text_para strip_eval)
  have "parse_document ([para ''Heading 1'' [83], para ''Heading 2'' [80], para ''Normal'' [98]] @
      para ''Heading 2'' [82] # [para ''Normal'' [99]]) =
     [\<lparr>faq_text = [98], faq_section = [83], faq_question = [80]\<rparr>,
      \<lparr>faq_text = [99], faq_section = [83], faq_question = [82]\<rparr>]"
    by (simp add: parse_document_eq loop_eval)
  with h1 h2 h3 bodyless_question_dropped [OF h1 h2 h3, of
      "[para ''Heading 1'' [83], para ''Heading 2'' [80], para ''Normal'' [98]]"
      "[para ''Normal'' [99]]"]
  show ?thesis
    by (simp only: simp_thms)
qed

text \<open>
  C6 as the specification states it, for every paragraph sequence, fails when the second
  heading is skipped because its cleaned text is empty: the body that follows is then
  accumulated for the first heading, whose record is emitted.
\<close>

theorem skipped_heading_counterexample:
  "is_question_heading (para ''Heading 2'' [81]) \<and>
   is_question_heading (para ''Heading 2'' [32]) \<and>
   parse_document
     [para ''Heading 1'' [83], para ''Heading 2'' [81], para ''Heading 2'' [32],
      para ''Normal'' [98]] =
   [\<lparr>faq_text = [98], faq_section = [83], faq_question = [81]\<rparr>]"
  by (simp add: parse_document_eq loop_eval)

subsection \<open>C7: order of the emitted records\<close>

text \<open>
  C7. The returned list is the concatenation, in paragraph order, of what the iteration at
  each paragraph emitted, followed by the record of the final flush if there is one; and
  an iteration emits at most one record, only at a question heading that is not skipped
  and closes a complete block. So the records appear in the order in which their closing
  question headings (or the end of the document, for the last one) were met.
\<close>

theorem records_in_encounter_order:
  "parse_document doc =
     concat (map (\<lambda>i. emitted (parse_loop initial_state (take i doc)) (doc ! i))
               [0..<length doc]) @
     (if flush_condition (parse_loop initial_state doc)
      then [pending_record (parse_loop initial_state doc)] else []) \<and>
   (\<forall>i<length doc.
      emitted (parse_loop initial_state (take i doc)) (doc ! i) =
        (if \<not> skipped (doc ! i) \<and> is_question_heading (doc ! i) \<and>
            flush_condition (parse_loop initial_state (take i doc))
         then [pending_record (parse_loop initial_state (take i doc))] else []))"
proof -
  have "questions (parse_loop initial_state doc) =
      concat (map (\<lambda>i. emitted (parse_loop initial_state (take i doc)) (doc ! i))
                [0..<length doc])"
    using questions_parse_loop [of initial_state doc] by (simp add: initial_state_def)
  then show ?thesis
    by (simp add: parse_document_eq emitted_eq)
qed

theorem records_in_encounter_order_witness:
  "3 < length [para ''Heading 1'' [83], para ''Heading 2'' [81], para ''Normal'' [98],
      para ''Heading 2'' [82], para ''Normal'' [99]] \<and>
   emitted (parse_loop initial_state
       (take 3 [para ''Heading 1'' [83], para ''Heading 2'' [81], para ''Normal'' [98],
          para ''Heading 2'' [82], para ''Normal'' [99]]))
     ([para ''Heading 1'' [83], para ''Heading 2'' [81], para ''Normal'' [98],
          para ''Heading 2'' [82], para ''Normal'' [99]] ! 3) =
     [\<lparr>faq_text = [98], faq_section = [83], faq_question = [81]\<rparr>] \<and>
   parse_document [para ''Heading 1'' [83], para ''Heading 2'' [81], para ''Normal'' [98],
      para ''Heading 2'' [82], para ''Normal'' [99]] =
     [\<lparr>faq_text = [98], faq_section = [83], faq_question = [81]\<rparr>,
      \<lparr>faq_text = [99], faq_section = [83], faq_question = [82]\<rparr>]"
proof -
  let ?D = "[para ''Heading 1'' [83], para ''Heading 2'' [81], para ''Normal'' [98],
      para ''Heading 2'' [82], para ''Normal'' [99]]"
  note order = records_in_encounter_order [of ?D]
  have len: "3 < length ?D"
    by simp
  from order len have "emitted (parse_loop initial_state (take 3 ?D)) (?D ! 3) =
      (if \<not> skipped (?D ! 3) \<and> is_question_heading (?D ! 3) \<and>
          flush_condition (parse_loop initial_state (take 3 ?D))
       then [pending_record (parse_loop initial_state (take 3 ?D))] else [])"
    by blast
  then have at3: "emitted (parse_loop initial_state (take 3 ?D)) (?D ! 3) =
      [\<lparr>faq_text = [98], faq_section = [83], faq_question = [81]\<rparr>]"
    by (simp add: loop_eval)
  from order have "parse_document ?D =
      concat (map (\<lambda>i. emitted (parse_loop initial_state (take i ?D)) (?D ! i))
                [0..<length ?D]) @
      (if flush_condition (parse_loop initial_state ?D)
       then [pending_record (parse_loop initial_state ?D)] else [])"
    by (rule conjunct1)
  then have whole: "parse_document ?D =
      [\<lparr>faq_text = [98], faq_section = [83], faq_question = [81]\<rparr>,
       \<lparr>faq_text = [99], faq_section = [83], faq_question = [82]\<rparr>]"
    by (simp add: emitted_eq loop_eval)
  from len at3 whole show ?thesis
    by (simp only: simp_thms)
qed

subsection \<open>C9: the section of a record is the one current at its flush\<close>

lemma titles_loop_body:
  "skipped p \<or> \<not> is_question_heading p \<Longrightarrow>
   question_title (loop_body s p) = question_title s \<and> questions (loop_body s p) = questions s"
  by (cases p rule: paragraph_cases)
     (auto simp: loop_body_skipped loop_body_section loop_body_body)

lemma no_question_heading_keeps:
  "\<forall>p\<in>set ps. skipped p \<or> \<not> is_question_heading p \<Longrightarrow>
   question_title (parse_loop s ps) = question_title s \<and>
   questions (parse_loop s ps) = questions s"
proof (induction ps arbitrary: s)
  case Nil
  then show ?case by simp
next
  case (Cons p ps)
  then have "skipped p \<or> \<not> is_question_heading p"
    and rest: "\<forall>p\<in>set ps. skipped p \<or> \<not> is_question_heading p"
    by simp_all
  then have "question_title (loop_body s p) = question_title s \<and>
      questions (loop_body s p) = questions s"
    by (simp only: titles_loop_body)
  with Cons.IH [OF rest, of "loop_body s p"] show ?case
    by simp
qed

lemma section_loop_body:
  "skipped p \<or> \<not> is_section_heading p \<Longrightarrow>
   section_title (loop_body s p) = section_title s"
  by (cases p rule: paragraph_cases)
     (auto simp: loop_body_skipped loop_body_question loop_body_body)

lemma no_section_heading_keeps:
  "\<forall>p\<in>set ps. skipped p \<or> \<not> is_section_heading p \<Longrightarrow>
   section_title (parse_loop s ps) = section_title s"
proof (induction ps arbitrary: s)
  case Nil
  then show ?case by simp
next
  case (Cons p ps)
  then have "section_title (loop_body s p) = section_title s"
    by (simp add: section_loop_body)
  with Cons show ?case
    by simp
qed

lemma answer_loop_body:
  assumes "skipped p \<or> \<not> is_question_heading p"
  shows "answer_text_so_far (loop_body s p) = answer_text_so_far s @ accumulated_body [p]"
  using assms
  by (cases p rule: paragraph_cases)
     (auto simp: accumulated_body_def loop_body_skipped loop_body_section loop_body_body
        is_body_def)

lemma accumulated_body_Cons:
  "accumulated_body (p # ps) = accumulated_body [p] @ accumulated_body ps"
  by (simp add: accumulated_body_def)

lemma accumulated_body_append:
  "accumulated_body (xs @ ys) = accumulated_body xs @ accumulated_body ys"
  by (simp add: accumulated_body_def)

lemma answer_no_question_heading:
  "\<forall>p\<in>set ps. skipped p \<or> \<not> is_question_heading p \<Longrightarrow>
   answer_text_so_far (parse_loop s ps) = answer_text_so_far s @ accumulated_body ps"
proof (induction ps arbitrary: s)
  case Nil
  then show ?case by (simp add: accumulated_body_def)
next
  case (Cons p ps)
  then have p: "skipped p \<or> \<not> is_question_heading p"
    and rest: "\<forall>p\<in>set ps. skipped p \<or> \<not> is_question_heading p"
    by simp_all
  have "answer_text_so_far (parse_loop (loop_body s p) ps) =
      answer_text_so_far (loop_body s p) @ accumulated_body ps"
    using rest by (rule Cons.IH)
  also have "\<dots> = (answer_text_so_far s @ accumulated_body [p]) @ accumulated_body ps"
    using p by (simp only: answer_loop_body)
  finally show ?case
    using accumulated_body_Cons [of p ps] by simp
qed

text \<open>
  C9, as amended. A record takes its section from \<^verbatim>\<open>section_title\<close> when it is emitted,
  not when its question heading was read. Let a question heading be followed, before the
  next question heading that is not skipped, by a section heading with non-empty cleaned
  text (the last such one before the flush). Then nothing is emitted between the question
  heading and its flush, the body paragraphs on both sides of the section heading are
  accumulated, and at the flush of that question, at a closing question heading or at the
  end of the document, the record emitted (when some answer text was accumulated) carries
  the title of the later section heading, whatever the section title was when the question
  heading was read.
\<close>

theorem record_carries_section_at_flush:
  assumes q: "is_question_heading q" "\<not> skipped q"
    and h: "is_section_heading h" "\<not> skipped h"
    and mid: "\<forall>p\<in>set (mid1 @ mid2). skipped p \<or> \<not> is_question_heading p"
    and mid2: "\<forall>p\<in>set mid2. skipped p \<or> \<not> is_section_heading p"
    and c: "is_question_heading c" "\<not> skipped c"
  shows "questions (parse_loop initial_state (pre @ q # mid1 @ h # mid2)) =
           questions (parse_loop initial_state (pre @ [q])) \<and>
         section_title (parse_loop initial_state (pre @ q # mid1 @ h # mid2)) =
           clean_line (raw_text h) \<and>
         question_title (parse_loop initial_state (pre @ q # mid1 @ h # mid2)) =
           clean_line (raw_text q) \<and>
         answer_text_so_far (parse_loop initial_state (pre @ q # mid1 @ h # mid2)) =
           accumulated_body (mid1 @ mid2) \<and>
         parse_document (pre @ q # mid1 @ h # mid2) =
           questions (parse_loop initial_state (pre @ [q])) @
           (if accumulated_body (mid1 @ mid2) \<noteq> []
            then [\<lparr>faq_text = py_strip (accumulated_body (mid1 @ mid2)),
                    faq_section = clean_line (raw_text h),
                    faq_question = clean_line (raw_text q)\<rparr>]
            else []) \<and>
         questions (parse_loop initial_state (pre @ q # mid1 @ h # mid2 @ [c])) =
           questions (parse_loop initial_state (pre @ [q])) @
           (if accumulated_body (mid1 @ mid2) \<noteq> []
            then [\<lparr>faq_text = py_strip (accumulated_body (mid1 @ mid2)),
                    faq_section = clean_line (raw_text h),
                    faq_question = clean_line (raw_text q)\<rparr>]
            else [])"
proof -
  let ?s0 = "parse_loop initial_state pre"
  let ?s1 = "loop_body ?s0 q"
  let ?s2 = "parse_loop ?s1 mid1"
  let ?s3 = "loop_body ?s2 h"
  let ?s4 = "parse_loop ?s3 mid2"
  let ?body = "accumulated_body (mid1 @ mid2)"
  have final: "parse_loop initial_state (pre @ q # mid1 @ h # mid2) = ?s4"
    by (simp add: parse_loop_append)
  have closing: "parse_loop initial_state (pre @ q # mid1 @ h # mid2 @ [c]) = loop_body ?s4 c"
    by (simp add: parse_loop_append)
  have start: "parse_loop initial_state (pre @ [q]) = ?s1"
    by (rule parse_loop_snoc)
  from mid have m1: "\<forall>p\<in>set mid1. skipped p \<or> \<not> is_question_heading p"
    and m2: "\<forall>p\<in>set mid2. skipped p \<or> \<not> is_question_heading p"
    by simp_all
  have q1: "question_title ?s1 = clean_line (raw_text q)" and a1: "answer_text_so_far ?s1 = []"
    using q by (simp_all add: loop_body_question)
  have k2: "question_title ?s2 = question_title ?s1" "questions ?s2 = questions ?s1"
    using no_question_heading_keeps [OF m1, of ?s1] by simp_all
  have a2: "answer_text_so_far ?s2 = accumulated_body mid1"
    using answer_no_question_heading [OF m1, of ?s1] a1 by simp
  have s3: "?s3 = ?s2\<lparr>section_title := clean_line (raw_text h)\<rparr>"
    using h by (simp add: loop_body_section)
  have k4: "question_title ?s4 = question_title ?s3" "questions ?s4 = questions ?s3"
    using no_question_heading_keeps [OF m2, of ?s3] by simp_all
  have a4: "answer_text_so_far ?s4 = ?body"
    using answer_no_question_heading [OF m2, of ?s3] a2
    by (simp add: s3 accumulated_body_append)
  have t4: "section_title ?s4 = clean_line (raw_text h)"
    using no_section_heading_keeps [OF mid2, of ?s3] by (simp add: s3)
  have q4: "question_title ?s4 = clean_line (raw_text q)"
    using k4(1) k2(1) q1 by (simp add: s3)
  have r4: "questions ?s4 = questions ?s1"
    using k4(2) k2(2) by (simp add: s3)
  have ne: "clean_line (raw_text q) \<noteq> []" "clean_line (raw_text h) \<noteq> []"
    using q(2) h(2) by (simp_all add: skipped_def)
  have fc: "flush_condition ?s4 \<longleftrightarrow> ?body \<noteq> []"
    using ne by (simp add: flush_condition_def q4 t4 a4)
  have pr: "pending_record ?s4 =
      \<lparr>faq_text = py_strip ?body, faq_section = clean_line (raw_text h),
        faq_question = clean_line (raw_text q)\<rparr>"
    by (simp add: pending_record_def q4 t4 a4)
  have doc: "parse_document (pre @ q # mid1 @ h # mid2) =
      questions ?s1 @ (if ?body \<noteq> [] then [pending_record ?s4] else [])"
    unfolding parse_document_eq final using fc r4 by simp
  have cl: "questions (loop_body ?s4 c) =
      questions ?s1 @ (if ?body \<noteq> [] then [pending_record ?s4] else [])"
    using c fc r4 by (simp add: loop_body_question)
  show ?thesis
    unfolding final closing start using r4 t4 q4 a4 doc cl by (simp add: pr)
qed

theorem record_carries_section_at_flush_witness:
  "is_question_heading (para ''Heading 2'' [81]) \<and>
   \<not> skipped (para ''Heading 2'' [81]) \<and>
   is_section_heading (para ''Heading 1'' [66]) \<and>
   \<not> skipped (para ''Heading 1'' [66]) \<and>
   is_question_heading (para ''Heading 2'' [82]) \<and>
   \<not> skipped (para ''Heading 2'' [82]) \<and>
   section_title (parse_loop initial_state [para ''Heading 1'' [65], para ''Heading 2'' [81]]) =
     [65] \<and>
   parse_document
     ([para ''Heading 1'' [65]] @ para ''Heading 2'' [81] # [para ''Normal'' [98]] @
        para ''Heading 1'' [66] # [para ''Normal'' [99]]) =
     [\<lparr>faq_text = [98, 10, 99], faq_section = [66], faq_question = [81]\<rparr>]"
proof -
  have q: "is_question_heading (para ''Heading 2'' [81])" "\<not> skipped (para ''Heading 2'' [81])"
    by (simp_all add: loop_eval)
  have h: "is_section_heading (para ''Heading 1'' [66])" "\<not> skipped (para ''Heading 1'' [66])"
    by (simp_all add: loop_eval)
  have c: "is_question_heading (para ''Heading 2'' [82])" "\<not> skipped (para ''Heading 2'' [82])"
    by (simp_all add: loop_eval)
  have nq: "\<not> is_question_heading (para ''Normal'' t)" "\<not> is_section_heading (para ''Normal'' t)"
    for t
    using para_Normal [of t] by (simp_all add: is_body_def)
  have mid: "\<forall>p\<in>set ([para ''Normal'' [98]] @ [para ''Normal'' [99]]).
      skipped p \<or> \<not> is_question_heading p"
    by (simp add: nq)
  have mid2: "\<forall>p\<in>set [para ''Normal'' [99]]. skipped p \<or> \<not> is_section_heading p"
    by (simp add: nq)
  have before: "section_title
      (parse_loop initial_state [para ''Heading 1'' [65], para ''Heading 2'' [81]]) = [65]"
    by (simp add: loop_eval)
  have body: "accumulated_body ([para ''Normal'' [98]] @ [para ''Normal'' [99]]) =
      [10, 98, 10, 99]"
    by (simp add: accumulated_body_def loop_eval)
  have recs: "questions (parse_loop initial_state
      ([para ''Heading 1'' [65]] @ [para ''Heading 2'' [81]])) = []"
    by (simp add: loop_eval)
  have cl: "clean_line [66] = [66]" "clean_line [81] = [81]"
    "py_strip [10, 98, 10, 99] = [98, 10, 99]"
    by (simp_all add: strip_eval)
  from record_carries_section_at_flush [OF q h mid mid2 c, of "[para ''Heading 1'' [65]]"]
  have "parse_document
     ([para ''Heading 1'' [65]] @ para ''Heading 2'' [81] # [para ''Normal'' [98]] @
        para ''Heading 1'' [66] # [para ''Normal'' [99]]) =
     [\<lparr>faq_text = [98, 10, 99], faq_section = [66], faq_question = [81]\<rparr>]"
    by (simp only: body recs raw_text_para cl) simp
  with q h c before show ?thesis
    by (simp only: simp_thms)
qed

text \<open>
  C9 as stated, for any section heading between a question heading and its flush, fails
  when the cleaned text of that section heading is empty: the paragraph is skipped and the
  record carries the earlier section title.
\<close>

theorem skipped_section_heading_counterexample:
  "is_section_heading (para ''Heading 1'' [32]) \<and>
   parse_document
     [para ''Heading 1'' [65], para ''Heading 2'' [81], para ''Normal'' [98],
      para ''Heading 1'' [32]] =
   [\<lparr>faq_text = [98], faq_section = [65], faq_question = [81]\<rparr>]"
  by (simp add: parse_document_eq loop_eval)

subsection \<open>C10: body paragraphs before the first question heading\<close>

lemma same_but_discarded_body_step:
  assumes "same_but_discarded_body s t"
  shows "same_but_discarded_body (loop_body s p) (loop_body t p)"
proof (cases p rule: paragraph_cases)
  case skip_par
  with assms show ?thesis by (simp add: loop_body_skipped)
next
  case sec_heading
  with assms show ?thesis
    by (auto simp: loop_body_section same_but_discarded_body_def)
next
  case quest_heading
  from assms have "flush_condition s = flush_condition t"
    and "flush_condition s \<Longrightarrow> pending_record s = pending_record t"
    by (auto simp: same_but_discarded_body_def flush_condition_def pending_record_def)
  with assms quest_heading show ?thesis
    by (simp add: loop_body_question same_but_discarded_body_def)
next
  case body_par
  with assms show ?thesis
    by (auto simp: loop_body_body same_but_discarded_body_def)
qed

lemma same_but_discarded_body_loop:
  "same_but_discarded_body s t \<Longrightarrow>
   same_but_discarded_body (parse_loop s ps) (parse_loop t ps)"
  by (induction ps arbitrary: s t) (simp_all add: same_but_discarded_body_step)

lemma same_but_discarded_body_final:
  assumes "same_but_discarded_body s t"
  shows "questions s @ (if flush_condition s then [pending_record s] else []) =
         questions t @ (if flush_condition t then [pending_record t] else [])"
  using assms
  by (auto simp: same_but_discarded_body_def flush_condition_def pending_record_def)

lemma leading_body_invariant:
  assumes "\<forall>p\<in>set pre. skipped p \<or> \<not> is_question_heading p"
    and "same_but_discarded_body s t" and "question_title s = []"
  shows "same_but_discarded_body (parse_loop s pre)
           (parse_loop t (filter (\<lambda>p. \<not> is_body p) pre)) \<and>
         question_title (parse_loop s pre) = []"
  using assms
proof (induction pre arbitrary: s t)
  case Nil
  then show ?case by simp
next
  case (Cons p pre)
  then have p: "skipped p \<or> \<not> is_question_heading p"
    and rest: "\<forall>p\<in>set pre. skipped p \<or> \<not> is_question_heading p"
    by simp_all
  from p have keep: "question_title (loop_body s p) = question_title s"
    "questions (loop_body s p) = questions s"
    by (simp_all add: titles_loop_body)
  then have qt: "question_title (loop_body s p) = []"
    using Cons.prems(3) by simp
  show ?case
  proof (cases "is_body p")
    case True
    have "section_title (loop_body s p) = section_title s"
      using True
      by (cases "skipped p") (simp_all add: loop_body_skipped loop_body_body)
    with keep Cons.prems(2,3) have "same_but_discarded_body (loop_body s p) t"
      by (simp add: same_but_discarded_body_def)
    from Cons.IH [OF rest this qt] True show ?thesis
      by simp
  next
    case False
    have "same_but_discarded_body (loop_body s p) (loop_body t p)"
      using Cons.prems(2) by (rule same_but_discarded_body_step)
    from Cons.IH [OF rest this qt] False show ?thesis
      by simp
  qed
qed

lemma same_but_discarded_body_refl: "same_but_discarded_body s s"
  by (simp add: same_but_discarded_body_def)

text \<open>
  C10. Let \<open>pre\<close> be a prefix of the document without a question heading that the loop
  processes (in particular, the paragraphs before the first paragraph in the question
  heading style). Then no question title is set after \<open>pre\<close>; the body paragraphs of
  \<open>pre\<close> are in no emitted record, since the document parses to the same records with all
  of them deleted; and at a first question heading the flush emits nothing and the
  accumulated answer text is reset to empty.
\<close>

theorem leading_body_discarded:
  assumes "\<forall>p\<in>set pre. skipped p \<or> \<not> is_question_heading p"
  shows "parse_document (pre @ post) =
           parse_document (filter (\<lambda>p. \<not> is_body p) pre @ post) \<and>
         question_title (parse_loop initial_state pre) = [] \<and>
         (\<forall>q. is_question_heading q \<and> \<not> skipped q \<longrightarrow>
            emitted (parse_loop initial_state pre) q = [] \<and>
            answer_text_so_far (loop_body (parse_loop initial_state pre) q) = [])"
proof -
  have init: "question_title initial_state = []"
    by (simp add: initial_state_def)
  from leading_body_invariant [OF assms same_but_discarded_body_refl init]
  have rel: "same_but_discarded_body (parse_loop initial_state pre)
      (parse_loop initial_state (filter (\<lambda>p. \<not> is_body p) pre))"
    and qt: "question_title (parse_loop initial_state pre) = []"
    by simp_all
  from rel have "same_but_discarded_body
      (parse_loop (parse_loop initial_state pre) post)
      (parse_loop (parse_loop initial_state (filter (\<lambda>p. \<not> is_body p) pre)) post)"
    by (rule same_but_discarded_body_loop)
  then have doc: "parse_document (pre @ post) =
      parse_document (filter (\<lambda>p. \<not> is_body p) pre @ post)"
    unfolding parse_document_append Let_def by (rule same_but_discarded_body_final)
  have "emitted (parse_loop initial_state pre) q = [] \<and>
      answer_text_so_far (loop_body (parse_loop initial_state pre) q) = []"
    if "is_question_heading q \<and> \<not> skipped q" for q
    using that qt by (simp add: emitted_eq flush_condition_def loop_body_question)
  with doc qt show ?thesis
    by blast
qed

theorem leading_body_discarded_witness:
  "\<not> is_question_heading (para ''Normal'' [120]) \<and>
   \<not> is_question_heading (para ''Heading 1'' [83]) \<and>
   \<not> is_question_heading (para ''Normal'' [121]) \<and>
   parse_document ([para ''Normal'' [120], para ''Heading 1'' [83], para ''Normal'' [121]] @
      [para ''Heading 2'' [81], para ''Normal'' [98]]) =
     [\<lparr>faq_text = [98], faq_section = [83], faq_question = [81]\<rparr>]"
proof -
  have nq: "\<not> is_question_heading (para ''Normal'' t)" for t
    using para_Normal [of t] by (simp add: is_body_def)
  have h: "\<forall>p\<in>set [para ''Normal'' [120], para ''Heading 1'' [83], para ''Normal'' [121]].
      skipped p \<or> \<not> is_question_heading p"
    using question_not_section [of "para ''Heading 1'' [83]"] para_Heading_1 [of "[83]"]
    by (auto simp: nq)
  have nb: "\<not> is_body (para ''Heading 1'' [83])"
    using para_Heading_1 [of "[83]"] by (simp add: is_body_def)
  have "parse_document
      (filter (\<lambda>p. \<not> is_body p)
         [para ''Normal'' [120], para ''Heading 1'' [83], para ''Normal'' [121]] @
       [para ''Heading 2'' [81], para ''Normal'' [98]]) =
     [\<lparr>faq_text = [98], faq_section = [83], faq_question = [81]\<rparr>]"
    by (simp add: nb parse_document_eq loop_eval)
  with leading_body_discarded [OF h, of "[para ''Heading 2'' [81], para ''Normal'' [98]]"]
  have "parse_document ([para ''Normal'' [120], para ''Heading 1'' [83], para ''Normal'' [121]] @
      [para ''Heading 2'' [81], para ''Normal'' [98]]) =
     [\<lparr>faq_text = [98], faq_section = [83], faq_question = [81]\<rparr>]"
    by (simp only: simp_thms)
  moreover have "\<not> is_question_heading (para ''Heading 1'' [83])"
    using question_not_section [of "para ''Heading 1'' [83]"] para_Heading_1 [of "[83]"]
    by blast
  ultimately show ?thesis
    using nq by (simp only: simp_thms)
qed


section \<open>Properties of the batch orchestrator\<close>

subsection \<open>C8: a failed fetch aborts the batch before anything is stored\<close>

lemma read_faq_fetch_error:
  "fetch_document g file_id = Inl e \<Longrightarrow> read_faq g d file_id = Inl e"
  by (simp add: read_faq_def)

lemma process_loop_first_failure:
  assumes "\<forall>x\<in>set before. \<not> isl (read_faq g d (snd x))"
    and "read_faq g d file_id = Inl e"
  shows "process_loop g d acc (before @ (c, file_id) # rest) = Inl e"
  using assms
proof (induction before arbitrary: acc)
  case Nil
  then show ?case by simp
next
  case (Cons x before)
  obtain c' f' where x: "x = (c', f')"
    by (cases x)
  with Cons.prems(1) obtain ds where "read_faq g d f' = Inr ds"
    by (cases "read_faq g d f'") simp_all
  with Cons x show ?case
    by simp
qed

lemma process_loop_some_failure:
  assumes "(c, file_id) \<in> set xs" and "isl (read_faq g d file_id)"
  shows "isl (process_loop g d acc xs)"
  using assms
proof (induction xs arbitrary: acc)
  case Nil
  then show ?case by simp
next
  case (Cons x xs)
  obtain c' f' where x: "x = (c', f')"
    by (cases x)
  show ?case
  proof (cases "read_faq g d f'")
    case (Inl e')
    with x show ?thesis by simp
  next
    case (Inr ds)
    with Cons.prems x have "(c, file_id) \<in> set xs"
      by auto
    from Cons.IH [OF this Cons.prems(2)] Inr x show ?thesis
      by simp
  qed
qed

text \<open>
  C8. If the fetch of any source of the batch fails, \<^verbatim>\<open>process_faq_documents\<close> returns no
  list: nothing catches the failure, so it is the outcome of the whole run, and the run
  makes no call on the collection (neither the \<^verbatim>\<open>delete_many\<close> nor any \<^verbatim>\<open>insert_one\<close>), so
  what is stored is unchanged and the records already produced for earlier sources are not
  persisted. When every earlier source was read successfully, the outcome is the error of
  that fetch.
\<close>

theorem fetch_failure_aborts_batch:
  assumes "(c, file_id) \<in> set faq_documents"
    and "fetch_document requests_get file_id = Inl e"
  shows "(\<exists>e'. process_faq_documents requests_get docx_Document faq_documents = Inl e' \<and>
            main_on requests_get docx_Document faq_documents = (Inl e', [])) \<and>
         apply_calls (snd (main_on requests_get docx_Document faq_documents)) stored = stored \<and>
         (\<forall>before rest.
            faq_documents = before @ (c, file_id) # rest \<and>
            (\<forall>x\<in>set before. \<not> isl (read_faq requests_get docx_Document (snd x))) \<longrightarrow>
            process_faq_documents requests_get docx_Document faq_documents = Inl e \<and>
            main_on requests_get docx_Document faq_documents = (Inl e, []))"
proof -
  have rf: "read_faq requests_get docx_Document file_id = Inl e"
    using assms(2) by (rule read_faq_fetch_error)
  then have "isl (read_faq requests_get docx_Document file_id)"
    by simp
  with assms(1) have "isl (process_faq_documents requests_get docx_Document faq_documents)"
    unfolding process_faq_documents_def by (rule process_loop_some_failure)
  then obtain e' where e': "process_faq_documents requests_get docx_Document faq_documents = Inl e'"
    by (cases "process_faq_documents requests_get docx_Document faq_documents") simp_all
  then have m: "main_on requests_get docx_Document faq_documents = (Inl e', [])"
    by (simp add: main_on_def)
  have first: "process_faq_documents requests_get docx_Document faq_documents = Inl e \<and>
      main_on requests_get docx_Document faq_documents = (Inl e, [])"
    if "faq_documents = before @ (c, file_id) # rest \<and>
      (\<forall>x\<in>set before. \<not> isl (read_faq requests_get docx_Document (snd x)))" for before rest
  proof -
    from that rf have "process_loop requests_get docx_Document [] faq_documents = Inl e"
      by (simp add: process_loop_first_failure)
    then show ?thesis
      by (simp add: main_on_def process_faq_documents_def)
  qed
  from e' m first show ?thesis
    by auto
qed

theorem fetch_failure_aborts_batch_witness:
  "fetch_document
     (\<lambda>url. if url = ''https://docs.google.com/document/d/1LpPanc33QJJ6BSsyxVg-pWNMplal84TdZtq10naIhD8/export?format=docx''
        then Inl Fetch_Error else Inr [])
     ''1LpPanc33QJJ6BSsyxVg-pWNMplal84TdZtq10naIhD8'' = Inl Fetch_Error \<and>
   main
     (\<lambda>url. if url = ''https://docs.google.com/document/d/1LpPanc33QJJ6BSsyxVg-pWNMplal84TdZtq10naIhD8/export?format=docx''
        then Inl Fetch_Error else Inr [])
     (\<lambda>content. Inr []) = (Inl Fetch_Error, [])"
proof -
  let ?g = "\<lambda>url. if url = ''https://docs.google.com/document/d/1LpPanc33QJJ6BSsyxVg-pWNMplal84TdZtq10naIhD8/export?format=docx''
        then Inl Fetch_Error else (Inr [] :: error + bytes)"
  let ?d = "\<lambda>content :: bytes. (Inr [] :: error + docx_paragraph list)"
  have mem: "(''machine-learning-zoomcamp'', ''1LpPanc33QJJ6BSsyxVg-pWNMplal84TdZtq10naIhD8'')
      \<in> set faq_documents_of_main"
    by (simp add: faq_documents_of_main_def)
  have fails: "fetch_document ?g ''1LpPanc33QJJ6BSsyxVg-pWNMplal84TdZtq10naIhD8'' = Inl Fetch_Error"
    by (simp add: fetch_document_def)
  have split: "faq_documents_of_main =
      [(''data-engineering-zoomcamp'', ''19bnYs80DwuUimHM65UV3sylsCn2j1vziPOwzBwQrebw'')] @
      (''machine-learning-zoomcamp'', ''1LpPanc33QJJ6BSsyxVg-pWNMplal84TdZtq10naIhD8'') #
      [(''mlops-zoomcamp'', ''12TlBfhIiKtyBv8RnsoJR6F72bkPDGEvPOItJIxaEzE0'')]"
    by (simp add: faq_documents_of_main_def)
  have ok: "\<forall>x\<in>set [(''data-engineering-zoomcamp'',
        ''19bnYs80DwuUimHM65UV3sylsCn2j1vziPOwzBwQrebw'')].
      \<not> isl (read_faq ?g ?d (snd x))"
    by (simp add: read_faq_def fetch_document_def)
  from fetch_failure_aborts_batch [OF mem fails, of ?d] split ok
  have "main_on ?g ?d faq_documents_of_main = (Inl Fetch_Error, [])"
    by blast
  with fails show ?thesis
    by (simp only: main_def simp_thms)
qed

end
